theory Spec2Isabelle
  imports Complex_Main
begin

section \<open>Numbers\<close>

text \<open>
  The program computes with JavaScript numbers, which are IEEE binary64 values.  They
  are modelled as reals.  The rounding of the arithmetic is modelled in \<open>lerp\<close>,
  where a claim on the values stored in keyframes depends on it, by \<open>fl64\<close>: the
  nearest number with a significand of 53 bits, a tie going to the even significand
  (the exponent range is taken as unbounded: no overflow, no subnormal numbers).  The
  other functions compute without rounding.  The one special value the code can
  produce from text, NaN, is modelled where it arises (colour channels, see below)
  by \<open>None\<close>.
\<close>

definition rne :: "real \<Rightarrow> int" where
  "rne x =
     (let f = \<lfloor>x\<rfloor>; d = x - of_int f
      in if d < 1 / 2 then f else if 1 / 2 < d then f + 1 else if even f then f else f + 1)"

definition fl64 :: "real \<Rightarrow> real" where
  "fl64 x =
     (if x = 0 then 0
      else let u = 2 powi (\<lfloor>log 2 \<bar>x\<bar>\<rfloor> - 52) in of_int (rne (x / u)) * u)"

definition js_trunc :: "real \<Rightarrow> int" where
  "js_trunc x = (if 0 \<le> x then \<lfloor>x\<rfloor> else \<lceil>x\<rceil>)"

text \<open>The \<open>%\<close> operator: the remainder takes the sign of the dividend.\<close>

definition js_mod :: "real \<Rightarrow> real \<Rightarrow> real" where
  "js_mod x y = x - y * of_int (js_trunc (x / y))"

section \<open>Timing resolver (Renderer)\<close>

datatype EaseSpec = Linear | EaseIn | EaseOut | EaseInOut
  | CubicBezier real real real real

text \<open>\<open>a + (b - a) * t\<close>, each of the three operations rounded.\<close>

definition lerp :: "real \<Rightarrow> real \<Rightarrow> real \<Rightarrow> real" where
  "lerp a b t = fl64 (a + fl64 (fl64 (b - a) * t))"

definition cubicBezier :: "real \<Rightarrow> real \<Rightarrow> real \<Rightarrow> real \<Rightarrow> real \<Rightarrow> real" where
  "cubicBezier x1 y1 x2 y2 t =
     (let u = 1 - t; tt = t * t; uu = u * u; uuu = uu * u; ttt = tt * t
      in uuu * 0 + 3 * uu * t * y1 + 3 * u * tt * y2 + ttt * 1)"

text \<open>An absent ease (\<open>undefined\<close>) is \<open>None\<close>.\<close>

fun applyEase :: "real \<Rightarrow> EaseSpec option \<Rightarrow> real" where
  "applyEase t None = t"
| "applyEase t (Some Linear) = t"
| "applyEase t (Some EaseIn) = t * t"
| "applyEase t (Some EaseOut) = 1 - (1 - t) * (1 - t)"
| "applyEase t (Some EaseInOut) =
     (if t < 1 / 2 then 2 * t * t else 1 - (- 2 * t + 2) ^ 2 / 2)"
| "applyEase t (Some (CubicBezier x1 y1 x2 y2)) = cubicBezier x1 y1 x2 y2 t"

text \<open>
  \<open>phase\<close>, with the default of every optional parameter already applied by the
  caller (\<open>loop = false\<close>, the others \<open>0\<close>).
\<close>

definition phase ::
  "real \<Rightarrow> real \<Rightarrow> bool \<Rightarrow> real \<Rightarrow> real \<Rightarrow> real \<Rightarrow> EaseSpec option \<Rightarrow> real \<Rightarrow> real \<Rightarrow> real" where
  "phase time duration loop start delay repeatDelay ease stagger index =
     (if duration \<le> 0 then 1
      else
        let local = time - start - delay - index * stagger in
        if local \<le> 0 then 0
        else if loop then
          (let cycle = duration + repeatDelay;
               inCycle = (if cycle > 0 then js_mod local cycle else local)
           in if inCycle > duration then 1 else applyEase (inCycle / duration) ease)
        else
          (let t = local / duration in applyEase (if t > 1 then 1 else t) ease))"

section \<open>Keyframe interpolator (Renderer)\<close>

text \<open>Reading a property of \<open>undefined\<close>, or destructuring a value that is not iterable, throws.\<close>

datatype error = TypeError

datatype 'a Keyframe = Keyframe (kf_time: real) (kf_value: 'a)

text \<open>
  The fields of a timing spec that the keyframe functions read.  An absent optional
  field is \<open>None\<close>; \<open>loop\<close> is only tested for truth, so absent is \<open>False\<close>.
\<close>

record 'a KeyframeSpec =
  spec_loop :: bool
  spec_delay :: "real option"
  spec_repeatDelay :: "real option"
  spec_ease :: "EaseSpec option"
  spec_duration :: "real option"
  spec_keyframes :: "'a Keyframe list option"

definition nullish :: "'a option \<Rightarrow> 'a \<Rightarrow> 'a" where
  "nullish v d = (case v of Some x \<Rightarrow> x | None \<Rightarrow> d)"

definition durationOf :: "('a, 'b) KeyframeSpec_scheme \<Rightarrow> real" where
  "durationOf spec =
     (case spec_keyframes spec of
        Some (k # ks) \<Rightarrow> nullish (spec_duration spec) (kf_time (last (k # ks)))
      | _ \<Rightarrow> nullish (spec_duration spec) 0)"

definition localTimeForKeyframes ::
  "real \<Rightarrow> ('a, 'b) KeyframeSpec_scheme \<Rightarrow> real \<Rightarrow> real \<Rightarrow> real \<Rightarrow> real" where
  "localTimeForKeyframes time spec start index stagger =
     (let delay = nullish (spec_delay spec) 0;
          local = time - start - delay - index * stagger
      in if local \<le> 0 then 0
         else
           let duration = durationOf spec in
           if spec_loop spec then
             (let cycle = duration + nullish (spec_repeatDelay spec) 0;
                  local' = (if cycle > 0 then js_mod local cycle else local)
              in if local' > duration then duration
                 else (if local' > duration then duration else local'))
           else (if local > duration then duration else local))"

text \<open>
  The \<open>for\<close> loop of \<open>segmentForKeyframes\<close> over the adjacent pairs; \<open>None\<close> when it
  runs to its end without returning.
\<close>

fun segmentLoop :: "real \<Rightarrow> 'a Keyframe list \<Rightarrow> ('a Keyframe \<times> 'a Keyframe \<times> real) option" where
  "segmentLoop local (a # b # rest) =
     (if local \<le> kf_time b then
        (let span = kf_time b - kf_time a;
             t = (if span \<le> 0 then 1 else (local - kf_time a) / span)
         in Some (a, b, t))
      else segmentLoop local (b # rest))"
| "segmentLoop local [a] = None"
| "segmentLoop local [] = None"

text \<open>On an empty list \<open>keyframes[0]\<close> is \<open>undefined\<close> and reading its \<open>time\<close> throws.\<close>

definition segmentForKeyframes ::
  "real \<Rightarrow> 'a Keyframe list \<Rightarrow> error + ('a Keyframe \<times> 'a Keyframe \<times> real)" where
  "segmentForKeyframes local keyframes =
     (case keyframes of
        [] \<Rightarrow> Inl TypeError
      | k0 # _ \<Rightarrow>
          if local \<le> kf_time k0 then Inr (k0, k0, 0)
          else (case segmentLoop local keyframes of
                  Some r \<Rightarrow> Inr r
                | None \<Rightarrow> Inr (last keyframes, last keyframes, 1)))"

definition keyframeNumber ::
  "real \<Rightarrow> real Keyframe list \<Rightarrow> ('a, 'b) KeyframeSpec_scheme \<Rightarrow> real \<Rightarrow> real \<Rightarrow> real \<Rightarrow> error + real" where
  "keyframeNumber time keyframes spec start index stagger =
     (let local = localTimeForKeyframes time spec start index stagger
      in case keyframes of
           [k] \<Rightarrow> Inr (kf_value k)
         | _ \<Rightarrow>
           (case segmentForKeyframes local keyframes of
              Inl e \<Rightarrow> Inl e
            | Inr (a, b, t) \<Rightarrow> Inr (lerp (kf_value a) (kf_value b) (applyEase t (spec_ease spec)))))"

section \<open>Time reference resolver (Flow and Renderer)\<close>

text \<open>
  \<open>resolveStart\<close> and \<open>parseOffset\<close> are written twice in the source, in Flow.ts and
  in the renderer, with the same text; one definition stands for both.  Strings are
  lists of 8-bit characters; the white space of the regular expression class
  \<open>\s\<close> is modelled on them (tab, line feed, vertical tab, form feed, carriage
  return, space, no-break space).
\<close>

datatype TimeRef = Num real | Str string

definition is_space :: "char \<Rightarrow> bool" where
  "is_space c = (of_char c \<in> {9, 10, 11, 12, 13, 32, 160 :: nat})"

definition is_digit :: "char \<Rightarrow> bool" where
  "is_digit c = (c \<in> set ''0123456789'')"

definition digit_val :: "char \<Rightarrow> nat" where
  "digit_val c = of_char c - 48"

definition dec_value :: "string \<Rightarrow> nat" where
  "dec_value ds = foldl (\<lambda>n c. 10 * n + digit_val c) 0 ds"

text \<open>\<open>start.replace(/\s+/g, '')\<close>: every white-space character is removed.\<close>

definition strip_ws :: "string \<Rightarrow> string" where
  "strip_ws s = filter (\<lambda>c. \<not> is_space c) s"

definition startsWith :: "string \<Rightarrow> string \<Rightarrow> bool" where
  "startsWith s p = (take (length p) s = p)"

definition slice :: "string \<Rightarrow> nat \<Rightarrow> string" where
  "slice s n = drop n s"

text \<open>
  The match of \<open>/^([+-]\d+(\.\d+)?)$/\<close>: a sign, the longest run of digits (not
  empty), then the end or a dot and digits (not empty) up to the end.  The result is
  the sign, the integer digits and the fraction digits of the match.
\<close>

definition match_offset :: "string \<Rightarrow> (char \<times> string \<times> string) option" where
  "match_offset s =
     (case s of
        [] \<Rightarrow> None
      | c # rest \<Rightarrow>
          if c = CHR ''+'' \<or> c = CHR ''-'' then
            (let ds = takeWhile is_digit rest; r = dropWhile is_digit rest
             in if ds = [] then None
                else (case r of
                        [] \<Rightarrow> Some (c, ds, [])
                      | d # fs \<Rightarrow>
                          if d = CHR ''.'' \<and> fs \<noteq> [] \<and> list_all is_digit fs
                          then Some (c, ds, fs) else None))
          else None)"

text \<open>\<open>Number\<close> of a matched text: its decimal value with its sign.\<close>

definition Number_of :: "char \<times> string \<times> string \<Rightarrow> real" where
  "Number_of m =
     (case m of (sg, ds, fs) \<Rightarrow>
        (if sg = CHR ''-'' then - 1 else 1)
          * (of_nat (dec_value ds) + of_nat (dec_value fs) / 10 ^ length fs))"

definition parseOffset :: "real \<Rightarrow> string \<Rightarrow> real" where
  "parseOffset base offset =
     (if offset = [] then base
      else (case match_offset offset of
              None \<Rightarrow> base
            | Some m \<Rightarrow> base + Number_of m))"

definition resolveStart :: "TimeRef option \<Rightarrow> real \<Rightarrow> real" where
  "resolveStart start prevEnd =
     (case start of
        None \<Rightarrow> 0
      | Some (Num n) \<Rightarrow> n
      | Some (Str str) \<Rightarrow>
          (let s = strip_ws str
           in if startsWith s ''scene'' then parseOffset 0 (slice s (length ''scene''))
              else if startsWith s ''prev.end'' then parseOffset prevEnd (slice s (length ''prev.end''))
              else 0))"

text \<open>
  The texts that \<open>/^([+-]\d+(\.\d+)?)$/\<close> matches, with their parts: a sign, a
  non-empty run of digits and the digits of the fraction (empty when there is none).
\<close>

definition signed_numeral :: "string \<Rightarrow> char \<Rightarrow> string \<Rightarrow> string \<Rightarrow> bool" where
  "signed_numeral s sg ds fs \<longleftrightarrow>
     (sg = CHR ''+'' \<or> sg = CHR ''-'') \<and> ds \<noteq> [] \<and> list_all is_digit ds \<and> list_all is_digit fs
     \<and> s = sg # ds @ (if fs = [] then [] else CHR ''.'' # fs)"

section \<open>Colour model (Renderer)\<close>

text \<open>
  A colour channel is a number that may be NaN (\<open>parseInt\<close> and \<open>Number\<close> give NaN
  on text that is not a numeral); NaN is \<open>None\<close>.  \<open>null\<close> for the colour as a whole
  is \<open>None\<close> of the outer option.
\<close>

type_synonym jsnum = "real option"

datatype Color = Color (col_r: jsnum) (col_g: jsnum) (col_b: jsnum)

text \<open>\<open>trim\<close>, and \<open>toLowerCase\<close> on the letters A to Z.\<close>

definition trim :: "string \<Rightarrow> string" where
  "trim s = rev (dropWhile is_space (rev (dropWhile is_space s)))"

definition lower_char :: "char \<Rightarrow> char" where
  "lower_char c =
     (case map_of (zip ''ABCDEFGHIJKLMNOPQRSTUVWXYZ'' ''abcdefghijklmnopqrstuvwxyz'') c of
        Some d \<Rightarrow> d | None \<Rightarrow> c)"

definition toLowerCase :: "string \<Rightarrow> string" where
  "toLowerCase s = map lower_char s"

text \<open>The own properties of the object \<open>named\<close>.\<close>

definition named :: "(string \<times> real \<times> real \<times> real) list" where
  "named =
     [(''red'', 255, 0, 0), (''blue'', 0, 0, 255), (''green'', 0, 128, 0),
      (''black'', 0, 0, 0), (''white'', 255, 255, 255), (''yellow'', 255, 255, 0),
      (''cyan'', 0, 255, 255), (''magenta'', 255, 0, 255), (''gray'', 128, 128, 128)]"

text \<open>
  \<open>named[s]\<close> also finds what every object inherits from \<open>Object.prototype\<close>.  The
  key is in lower case, and two inherited names are: for them \<open>named[s]\<close> is a
  function or an object, which is truthy and not iterable, so that the array
  destructuring \<open>const [r, g, b] = named[s]\<close> throws.
\<close>

definition inherited :: "string \<Rightarrow> bool" where
  "inherited s = (s = ''constructor'' \<or> s = ''__proto__'')"

definition hex_digit :: "char \<Rightarrow> nat option" where
  "hex_digit c =
     map_of (zip ''0123456789abcdefABCDEF''
       [0, 1, 2, 3, 4, 5, 6, 7, 8, 9, 10, 11, 12, 13, 14, 15, 10, 11, 12, 13, 14, 15]) c"

definition hex_value :: "string \<Rightarrow> nat" where
  "hex_value ds = foldl (\<lambda>n c. 16 * n + (case hex_digit c of Some d \<Rightarrow> d | None \<Rightarrow> 0)) 0 ds"

text \<open>
  \<open>parseInt(text, 16)\<close>: leading white space is skipped, then a sign, then a prefix
  \<open>0x\<close>; the longest run of hexadecimal digits that follows is the value, and NaN
  when that run is empty.
\<close>

definition parseInt16 :: "string \<Rightarrow> jsnum" where
  "parseInt16 text =
     (let s1 = dropWhile is_space text;
          neg = (case s1 of c # _ \<Rightarrow> c = CHR ''-'' | [] \<Rightarrow> False);
          s2 = (case s1 of c # t \<Rightarrow> if c = CHR ''-'' \<or> c = CHR ''+'' then t else s1 | [] \<Rightarrow> s1);
          s3 = (case s2 of
                  c # x # t \<Rightarrow> if c = CHR ''0'' \<and> (x = CHR ''x'' \<or> x = CHR ''X'') then t else s2
                | _ \<Rightarrow> s2);
          ds = takeWhile (\<lambda>c. hex_digit c \<noteq> None) s3
      in if ds = [] then None
         else Some ((if neg then - 1 else 1) * of_nat (hex_value ds)))"

text \<open>
  The regular expression of the third form is written with doubled backslashes,
  \<open>/rgb\\((\\d+),\s*...\<close>: in a regular expression literal \<open>\\\<close> is one backslash
  character, and the \<open>(\<close> after it opens a group.  Read so, the expression is the
  sequence: \<open>rgb\<close>, a backslash, [group 1: [group 2: a backslash, one or more
  letters d], a comma, a backslash, any number of letters s, [group 3: a backslash,
  letters d], a comma, a backslash, letters s, [group 4: a backslash, letters d], a
  backslash].  Each repetition is followed by a character that it cannot take, so
  the longest run is the only match.
\<close>

definition bsl :: char where
  "bsl = CHR 0x5C"

definition lit :: "string \<Rightarrow> string \<Rightarrow> string option" where
  "lit p s = (if take (length p) s = p then Some (drop (length p) s) else None)"

definition many1 :: "char \<Rightarrow> string \<Rightarrow> string option" where
  "many1 c s = (if takeWhile (\<lambda>x. x = c) s = [] then None else Some (dropWhile (\<lambda>x. x = c) s))"

definition many0 :: "char \<Rightarrow> string \<Rightarrow> string option" where
  "many0 c s = Some (dropWhile (\<lambda>x. x = c) s)"

definition rgb_match_at :: "string \<Rightarrow> bool" where
  "rgb_match_at s =
     (Option.bind (Option.bind (Option.bind (Option.bind (Option.bind (Option.bind
      (Option.bind (Option.bind (Option.bind (Option.bind (Option.bind
        (lit (''rgb'' @ [bsl, bsl]) s)
        (many1 CHR ''d'')) (lit [CHR '','', bsl])) (many0 CHR ''s'')) (lit [bsl]))
        (many1 CHR ''d'')) (lit [CHR '','', bsl])) (many0 CHR ''s'')) (lit [bsl]))
        (many1 CHR ''d'')) (lit [bsl])) Some \<noteq> None)"

text \<open>\<open>s.match\<close> without anchors: a match starting at any position.\<close>

fun rgb_search :: "string \<Rightarrow> bool" where
  "rgb_search [] = rgb_match_at []"
| "rgb_search (c # cs) = (rgb_match_at (c # cs) \<or> rgb_search cs)"

text \<open>
  \<open>parseColor\<close>.  In the third form every group of a match holds a backslash, so
  \<open>Number\<close> of it is NaN.
\<close>

definition parseColor :: "string \<Rightarrow> error + Color option" where
  "parseColor input =
     (let s = toLowerCase (trim input)
      in case map_of named s of
           Some (r, g, b) \<Rightarrow> Inr (Some (Color (Some r) (Some g) (Some b)))
         | None \<Rightarrow>
             if inherited s then Inl TypeError
             else
               let hex = slice s 1 in
               if startsWith s ''#'' \<and> length hex = 3 then
                 Inr (Some (Color (parseInt16 [hex ! 0, hex ! 0]) (parseInt16 [hex ! 1, hex ! 1])
                        (parseInt16 [hex ! 2, hex ! 2])))
               else if startsWith s ''#'' \<and> length hex = 6 then
                 Inr (Some (Color (parseInt16 (take 2 hex)) (parseInt16 (take 2 (drop 2 hex)))
                        (parseInt16 (take 2 (drop 4 hex)))))
               else if rgb_search s then Inr (Some (Color None None None))
               else Inr None)"

text \<open>\<open>lerp\<close> and \<open>Math.round\<close> on numbers that may be NaN.\<close>

definition lerpN :: "jsnum \<Rightarrow> jsnum \<Rightarrow> real \<Rightarrow> jsnum" where
  "lerpN a b t = (case (a, b) of (Some x, Some y) \<Rightarrow> Some (lerp x y t) | _ \<Rightarrow> None)"

definition Math_round :: "jsnum \<Rightarrow> int option" where
  "Math_round v = (case v of Some x \<Rightarrow> Some \<lfloor>x + 1 / 2\<rfloor> | None \<Rightarrow> None)"

text \<open>
  The text of an integer in a template string (the decimal digits; the exponent form
  that JavaScript uses from \<open>1e21\<close> on is not modelled).
\<close>

fun digits_of :: "nat \<Rightarrow> string" where
  "digits_of n =
     (if n < 10 then [''0123456789'' ! n]
      else digits_of (n div 10) @ [''0123456789'' ! (n mod 10)])"

definition show_num :: "int option \<Rightarrow> string" where
  "show_num v =
     (case v of
        None \<Rightarrow> ''NaN''
      | Some i \<Rightarrow> if i < 0 then CHR ''-'' # digits_of (nat (- i)) else digits_of (nat i))"

definition lerpColor :: "string \<Rightarrow> string \<Rightarrow> real \<Rightarrow> error + string" where
  "lerpColor a b t =
     (case parseColor a of
        Inl e \<Rightarrow> Inl e
      | Inr ca \<Rightarrow>
          (case parseColor b of
             Inl e \<Rightarrow> Inl e
           | Inr cb \<Rightarrow>
               (case (ca, cb) of
                  (Some x, Some y) \<Rightarrow>
                    (let r = Math_round (lerpN (col_r x) (col_r y) t);
                         g = Math_round (lerpN (col_g x) (col_g y) t);
                         bl = Math_round (lerpN (col_b x) (col_b y) t)
                     in Inr (''rgb('' @ show_num r @ '', '' @ show_num g @ '', '' @ show_num bl @ '')''))
                | _ \<Rightarrow> Inr a)))"

section \<open>Flow composer (Flow.ts)\<close>

text \<open>
  \<open>ShapeLike\<close>: a shape builder, an array of builders, or a function of no argument
  that returns one of them.  \<open>ShapeBuilder\<close> (its \<open>evaluate\<close>) and \<open>estimateDuration\<close>
  are imported from Shape.ts; they are parameters here: \<open>ev\<close> of type
  \<open>'sb \<Rightarrow> real \<Rightarrow> 'inst list\<close> and \<open>est\<close> of type \<open>'sb \<Rightarrow> real\<close>.  A function item is
  modelled by the value it returns (it is taken to return the same value at every
  call).
\<close>

datatype 'sb ShapeLike = Single 'sb | Many "'sb list" | Thunk "'sb ShapeLike"

fun flattenItems ::
  "('sb \<Rightarrow> real \<Rightarrow> 'inst list) \<Rightarrow> 'sb ShapeLike list \<Rightarrow> real \<Rightarrow> real \<Rightarrow> 'inst list" where
  "flattenItems ev [] time offset = []"
| "flattenItems ev (Thunk built # items) time offset =
     flattenItems ev [built] time offset @ flattenItems ev items time offset"
| "flattenItems ev (Many bs # items) time offset =
     concat (map (\<lambda>b. ev b time) bs) @ flattenItems ev items time offset"
| "flattenItems ev (Single b # items) time offset =
     ev b time @ flattenItems ev items time offset"

fun durationOfItem :: "('sb \<Rightarrow> real) \<Rightarrow> 'sb ShapeLike \<Rightarrow> real" where
  "durationOfItem est (Thunk item) = durationOfItem est item"
| "durationOfItem est (Many bs) = foldl (\<lambda>acc b. max acc (est b)) 0 bs"
| "durationOfItem est (Single b) = est b"

text \<open>The constructor of \<open>SequenceGroup\<close>: its loop, from a given cursor.\<close>

fun sequence_entries ::
  "('sb \<Rightarrow> real) \<Rightarrow> real \<Rightarrow> 'sb ShapeLike list \<Rightarrow> (real \<times> 'sb ShapeLike) list" where
  "sequence_entries est cursor [] = []"
| "sequence_entries est cursor (item # items) =
     (cursor, item) # sequence_entries est (cursor + durationOfItem est item) items"

definition sequence :: "('sb \<Rightarrow> real) \<Rightarrow> 'sb ShapeLike list \<Rightarrow> (real \<times> 'sb ShapeLike) list" where
  "sequence est items = sequence_entries est 0 items"

text \<open>\<open>SequenceGroup.evaluate\<close>, on the entries of the group.\<close>

fun SequenceGroup_evaluate ::
  "('sb \<Rightarrow> real \<Rightarrow> 'inst list) \<Rightarrow> (real \<times> 'sb ShapeLike) list \<Rightarrow> real \<Rightarrow> 'inst list" where
  "SequenceGroup_evaluate ev [] time = []"
| "SequenceGroup_evaluate ev ((offset, item) # entries) time =
     (if time < offset then SequenceGroup_evaluate ev entries time
      else flattenItems ev [item] (time - offset) offset @ SequenceGroup_evaluate ev entries time)"

section \<open>Distortion mapper\<close>

text \<open>
  Shape.ts, which holds \<open>ShapeBuilder\<close>, its \<open>distort\<close> modifier and its \<open>evaluate\<close>,
  is not among the sources; only the constructors (\<open>Rect\<close>, \<open>Polygon\<close>) and the test
  of \<open>distort\<close> are.  The definitions of this section other than the two
  constructors follow sections 4.6 and 4.7 of the specification.
\<close>

text \<open>
  The geometry that the constructors build: \<open>{kind: 'rect', width, height}\<close> and
  \<open>{kind: 'path', points, closed}\<close>.
\<close>

datatype Vec2 = Vec2 (vx: real) (vy: real)

datatype Geom = RectGeom real real | PathGeom "Vec2 list" bool

datatype Kind = KRect | KPath

text \<open>
  Modelled from the spec: the partial map of the corners \<open>tl, tr, br, bl\<close> to their
  displacement vectors (section 4.6).
\<close>

record Corners =
  c_tl :: "Vec2 option"
  c_tr :: "Vec2 option"
  c_br :: "Vec2 option"
  c_bl :: "Vec2 option"

text \<open>
  Modelled from the spec: a builder (section 4.7) holds its kind, its base geometry and
  the queue of its modifiers, of which the distort modifiers are kept here; an
  instance (section 3) is reduced to its kind and geometry.
\<close>

record ShapeBuilder =
  sb_kind :: Kind
  sb_geom :: Geom
  sb_distort :: "Corners list"

record ShapeInstance =
  si_kind :: Kind
  si_geom :: Geom

definition Rect :: "real \<Rightarrow> real \<Rightarrow> ShapeBuilder" where
  "Rect width height = \<lparr>sb_kind = KRect, sb_geom = RectGeom width height, sb_distort = []\<rparr>"

definition Polygon :: "Vec2 list \<Rightarrow> bool \<Rightarrow> ShapeBuilder" where
  "Polygon points isClosed = \<lparr>sb_kind = KPath, sb_geom = PathGeom points isClosed, sb_distort = []\<rparr>"

text \<open>Modelled from the spec: the \<open>distort\<close> modifier of a builder, which joins the queue.\<close>

definition distort :: "ShapeBuilder \<Rightarrow> Corners \<Rightarrow> ShapeBuilder" where
  "distort sb corners = sb\<lparr>sb_distort := sb_distort sb @ [corners]\<rparr>"

text \<open>
  Modelled from the spec: step 1 of section 4.6, the point list of a shape (the four
  corners \<open>[tl, tr, br, bl]\<close> of a rectangle in centre-origin coordinates, the points of
  a path unchanged) and its closedness.
\<close>

definition pointsOf :: "Geom \<Rightarrow> Vec2 list \<times> bool" where
  "pointsOf g =
     (case g of
        RectGeom w h \<Rightarrow>
          ([Vec2 (- w / 2) (- h / 2), Vec2 (w / 2) (- h / 2), Vec2 (w / 2) (h / 2),
            Vec2 (- w / 2) (h / 2)], True)
      | PathGeom ps isClosed \<Rightarrow> (ps, isClosed))"

text \<open>
  Modelled from the spec: the bounds of step 2 of section 4.6 (the least and the
  greatest coordinate of the point list).
\<close>

definition min_list_of :: "real list \<Rightarrow> real" where
  "min_list_of xs = (case xs of [] \<Rightarrow> 0 | x # rest \<Rightarrow> foldl min x rest)"

definition max_list_of :: "real list \<Rightarrow> real" where
  "max_list_of xs = (case xs of [] \<Rightarrow> 0 | x # rest \<Rightarrow> foldl max x rest)"

text \<open>
  Modelled from the spec: step 3, the normalised coordinate, 0 on an axis without
  extent.
\<close>

definition normalized :: "real \<Rightarrow> real \<Rightarrow> real \<Rightarrow> real" where
  "normalized v lo hi = (if hi - lo = 0 then 0 else (v - lo) / (hi - lo))"

text \<open>Modelled from the spec: a corner that is not given has the displacement \<open>(0, 0)\<close>.\<close>

definition corner :: "Vec2 option \<Rightarrow> Vec2" where
  "corner c = (case c of Some d \<Rightarrow> d | None \<Rightarrow> Vec2 0 0)"

text \<open>
  Modelled from the spec: steps 4 and 5, the bilinear weights of the four corner
  displacements and the displaced points.
\<close>

definition distortPoints :: "Corners \<Rightarrow> Vec2 list \<Rightarrow> Vec2 list" where
  "distortPoints corners ps =
     (let minX = min_list_of (map vx ps); maxX = max_list_of (map vx ps);
          minY = min_list_of (map vy ps); maxY = max_list_of (map vy ps);
          tl = corner (c_tl corners); tr = corner (c_tr corners);
          br = corner (c_br corners); bl = corner (c_bl corners)
      in map (\<lambda>p.
           let u = normalized (vx p) minX maxX; v = normalized (vy p) minY maxY;
               wtl = (1 - u) * (1 - v); wtr = u * (1 - v); wbr = u * v; wbl = (1 - u) * v
           in Vec2 (vx p + (wtl * vx tl + wtr * vx tr + wbr * vx br + wbl * vx bl))
                   (vy p + (wtl * vy tl + wtr * vy tr + wbr * vy br + wbl * vy bl))) ps)"

text \<open>Modelled from the spec: step 6, the result is a path.\<close>

definition applyDistort :: "Corners \<Rightarrow> ShapeInstance \<Rightarrow> ShapeInstance" where
  "applyDistort corners inst =
     (case pointsOf (si_geom inst) of
        (ps, isClosed) \<Rightarrow> \<lparr>si_kind = KPath, si_geom = PathGeom (distortPoints corners ps) isClosed\<rparr>)"

text \<open>
  Modelled from the spec: \<open>evaluate\<close> of a builder (section 4.7) assembles one instance
  from the base geometry and lets each queued distort modifier rewrite its geometry.
  The modifiers driven by time (transform, opacity, colours) are not modelled, so the
  time is not read.
\<close>

definition evaluate :: "ShapeBuilder \<Rightarrow> real \<Rightarrow> ShapeInstance list" where
  "evaluate sb time =
     [foldl (\<lambda>inst c. applyDistort c inst) \<lparr>si_kind = sb_kind sb, si_geom = sb_geom sb\<rparr>
        (sb_distort sb)]"

section \<open>Properties of the timing resolver\<close>

lemma applyEase_zero: "applyEase 0 e = 0"
proof (cases e)
  case None
  then show ?thesis by simp
next
  case (Some a)
  then show ?thesis by (cases a) (simp_all add: cubicBezier_def)
qed

lemma applyEase_one: "applyEase 1 e = 1"
proof (cases e)
  case None
  then show ?thesis by simp
next
  case (Some a)
  then show ?thesis by (cases a) (simp_all add: cubicBezier_def)
qed

lemma sq_mono: "0 \<le> (s::real) \<Longrightarrow> s \<le> t \<Longrightarrow> s * s \<le> t * t"
  by (rule mult_mono) auto

lemma easeInOut_mono:
  assumes "0 \<le> s" "s \<le> t" "t \<le> 1"
  shows "applyEase s (Some EaseInOut) \<le> applyEase t (Some EaseInOut)"
proof -
  consider (lo) "t < 1 / 2" | (mid) "s < 1 / 2" "1 / 2 \<le> t" | (hi) "1 / 2 \<le> s"
    by linarith
  then show ?thesis
  proof cases
    case lo
    with assms have "s < 1 / 2" by linarith
    with lo sq_mono [OF assms(1,2)] show ?thesis by simp
  next
    case mid
    have a: "s * s \<le> (1 / 2) * (1 / 2)"
      using assms(1) mid(1) by (intro sq_mono) auto
    have b: "(2 - 2 * t) * (2 - 2 * t) \<le> 1 * 1"
      using assms(3) mid(2) by (intro sq_mono) auto
    from a b mid show ?thesis by (simp add: power2_eq_square)
  next
    case hi
    have "(2 - 2 * t) * (2 - 2 * t) \<le> (2 - 2 * s) * (2 - 2 * s)"
      using assms by (intro sq_mono) auto
    with hi assms show ?thesis by (simp add: power2_eq_square)
  qed
qed

lemma applyEase_mono:
  assumes "0 \<le> s" "s \<le> t" "t \<le> 1"
    and "e = None \<or> e = Some Linear \<or> e = Some EaseIn \<or> e = Some EaseOut \<or> e = Some EaseInOut"
  shows "applyEase s e \<le> applyEase t e"
proof -
  have out: "(1 - t) * (1 - t) \<le> (1 - s) * (1 - s)"
    using assms(1-3) by (intro sq_mono) auto
  from assms(4) show ?thesis
    using assms(2) sq_mono [OF assms(1,2)] out easeInOut_mono [OF assms(1-3)] by auto
qed

lemma applyEase_nonneg:
  assumes "0 \<le> t" "t \<le> 1"
    and "e = None \<or> e = Some Linear \<or> e = Some EaseIn \<or> e = Some EaseOut \<or> e = Some EaseInOut"
  shows "0 \<le> applyEase t e"
  using applyEase_mono [of 0 t e] assms by (simp add: applyEase_zero)

lemma js_mod_pos:
  assumes "0 < x" "0 < y"
  shows "js_mod x y = x - y * of_int \<lfloor>x / y\<rfloor>"
  using assms by (simp add: js_mod_def js_trunc_def)

text \<open>
  Claim C1, as the code has it.  Before \<open>start + delay\<close> (index and stagger 0) the
  progress is 0 for every spec with a positive duration.  The test
  \<open>duration \<le> 0\<close> comes first in \<open>phase\<close>, so a spec without a positive
  duration has progress 1 at every time, also before its start.
\<close>

theorem phase_before_start:
  assumes "time < start + delay"
  shows "phase time duration loop start delay repeatDelay ease 0 0
           = (if duration \<le> 0 then 1 else 0)"
  using assms by (simp add: phase_def)

theorem phase_before_start_witness:
  "(5::real) < 10 + 0 \<and> phase 5 100 True 10 0 0 (Some EaseIn) 0 0 = 0
     \<and> phase 5 0 True 10 0 0 (Some EaseIn) 0 0 = 1"
  using phase_before_start [of 5 10 0 100 True 0 "Some EaseIn"]
    phase_before_start [of 5 10 0 0 True 0 "Some EaseIn"]
  by simp

text \<open>
  Claim C1 as stated fails for \<open>duration \<le> 0\<close>: at time \<open>-1\<close>, before
  \<open>start + delay = 0\<close>, a spec of duration 0 already has progress 1.
\<close>

theorem phase_zero_duration_counterexample:
  "(-1::real) < 0 + 0 \<and> phase (-1) 0 False 0 0 0 None 0 0 = 1
     \<and> phase (-1) 0 False 0 0 0 None 0 0 \<noteq> 0"
  by (simp add: phase_def)

text \<open>
  Claim C5, as the code has it.  With \<open>loop\<close> set, a positive duration and a positive
  local time, the cycle is \<open>duration + repeatDelay\<close> and is not clamped.  A positive
  cycle wraps the local time (remainder of the division by the cycle); progress is 1
  when the wrapped time is past the duration and the eased quotient otherwise.  A
  cycle that is zero or negative leaves the local time unwrapped, and the looping
  phase is then the non-looping phase.
\<close>

theorem phase_loop:
  assumes "0 < duration" and "0 < time - start - delay - index * stagger"
  shows "(0 < duration + repeatDelay \<longrightarrow>
            phase time duration True start delay repeatDelay ease stagger index =
              (let local = time - start - delay - index * stagger;
                   cycle = duration + repeatDelay;
                   inCycle = local - cycle * of_int \<lfloor>local / cycle\<rfloor>
               in if inCycle > duration then 1 else applyEase (inCycle / duration) ease))
       \<and> (duration + repeatDelay \<le> 0 \<longrightarrow>
            phase time duration True start delay repeatDelay ease stagger index =
            phase time duration False start delay repeatDelay ease stagger index)"
proof (intro conjI impI)
  assume c: "0 < duration + repeatDelay"
  with assms show "phase time duration True start delay repeatDelay ease stagger index =
              (let local = time - start - delay - index * stagger;
                   cycle = duration + repeatDelay;
                   inCycle = local - cycle * of_int \<lfloor>local / cycle\<rfloor>
               in if inCycle > duration then 1 else applyEase (inCycle / duration) ease)"
    by (simp add: phase_def Let_def js_mod_pos)
next
  assume c: "duration + repeatDelay \<le> 0"
  with assms show "phase time duration True start delay repeatDelay ease stagger index =
            phase time duration False start delay repeatDelay ease stagger index"
    by (simp add: phase_def Let_def applyEase_one)
qed

theorem phase_loop_witness:
  "phase 150 100 True 0 0 20 None 0 0 = 3 / 10
   \<and> phase 150 100 True 0 0 (- 150) None 0 0 = phase 150 100 False 0 0 (- 150) None 0 0"
  using phase_loop [of 100 150 0 0 0 0 20 None] phase_loop [of 100 150 0 0 0 0 "- 150" None]
  by (simp add: Let_def)

text \<open>
  Claim C5 as stated fails: with \<open>repeatDelay = -150 < -duration\<close> the progress at
  local time 150 is 1, whereas a cycle of length \<open>duration\<close> (the same spec with
  \<open>repeatDelay = 0\<close>) gives 1/2 there.
\<close>

theorem phase_negative_cycle_counterexample:
  "(- 150 :: real) < - 100
   \<and> phase 150 100 True 0 0 (- 150) None 0 0 = 1
   \<and> phase 150 100 True 0 0 0 None 0 0 = 1 / 2"
  by (simp add: phase_def Let_def js_mod_def js_trunc_def)

text \<open>
  Claim C7, as the code has it.  The non-looping phase is monotonically non-decreasing
  in time when the ease is absent or is one of the four named eases (linear, easeIn,
  easeOut, easeInOut).  A custom cubic bezier is left out: for it the phase need not
  be monotone.
\<close>

theorem phase_monotone:
  assumes "t1 \<le> t2"
    and named: "ease = None \<or> ease = Some Linear \<or> ease = Some EaseIn \<or> ease = Some EaseOut
      \<or> ease = Some EaseInOut"
  shows "phase t1 duration False start delay repeatDelay ease stagger index
       \<le> phase t2 duration False start delay repeatDelay ease stagger index"
proof (cases "duration \<le> 0")
  case True
  then show ?thesis by (simp add: phase_def)
next
  case False
  then have d: "0 < duration" by simp
  define l1 where "l1 = t1 - start - delay - index * stagger"
  define l2 where "l2 = t2 - start - delay - index * stagger"
  define c where "c = (\<lambda>l. if l / duration > 1 then 1 else l / duration)"
  have l12: "l1 \<le> l2" using assms(1) by (simp add: l1_def l2_def)
  have p1: "phase t1 duration False start delay repeatDelay ease stagger index
      = (if l1 \<le> 0 then 0 else applyEase (c l1) ease)"
    using d by (simp add: phase_def Let_def l1_def c_def)
  have p2: "phase t2 duration False start delay repeatDelay ease stagger index
      = (if l2 \<le> 0 then 0 else applyEase (c l2) ease)"
    using d by (simp add: phase_def Let_def l2_def c_def)
  have cb: "0 \<le> c l \<and> c l \<le> 1" if "0 < l" for l
    using that d by (simp add: c_def)
  have cm: "c l1 \<le> c l2"
    using l12 d by (simp add: c_def divide_right_mono)
  show ?thesis
  proof (cases "l2 \<le> 0")
    case True
    with l12 show ?thesis unfolding p1 p2 by simp
  next
    case l2pos: False
    show ?thesis
    proof (cases "l1 \<le> 0")
      case True
      with l2pos cb [of l2] applyEase_nonneg [of "c l2" ease] named show ?thesis
        unfolding p1 p2 by simp
    next
      case False
      with l2pos cb [of l1] cb [of l2] cm applyEase_mono [of "c l1" "c l2" ease] named
      show ?thesis unfolding p1 p2 by simp
    qed
  qed
qed

theorem phase_monotone_witness:
  "(25::real) \<le> 75
   \<and> phase 25 100 False 0 0 0 (Some EaseInOut) 0 0 \<le> phase 75 100 False 0 0 0 (Some EaseInOut) 0 0
   \<and> phase 25 100 False 0 0 0 (Some EaseOut) 0 0 \<le> phase 75 100 False 0 0 0 (Some EaseOut) 0 0"
  using phase_monotone [of 25 75 "Some EaseInOut" 100 0 0 0 0 0]
    phase_monotone [of 25 75 "Some EaseOut" 100 0 0 0 0 0]
  by simp

text \<open>
  Claim C7 as stated fails for a cubic bezier: with the overshooting control values
  \<open>(0.34, 1.56, 0.64, 1)\<close> the progress at half the duration is 217/200, above the
  progress 1 reached at the end.
\<close>

theorem phase_bezier_counterexample:
  "(50::real) \<le> 100
   \<and> \<not> phase 50 100 False 0 0 0 (Some (CubicBezier (17 / 50) (39 / 25) (16 / 25) 1)) 0 0
        \<le> phase 100 100 False 0 0 0 (Some (CubicBezier (17 / 50) (39 / 25) (16 / 25) 1)) 0 0"
  by (simp add: phase_def Let_def cubicBezier_def)

section \<open>Properties of the rounding\<close>

lemma fl64_zero: "fl64 0 = 0"
  by (simp add: fl64_def)

lemma fl64_binade:
  assumes "2 powi e \<le> \<bar>x\<bar>" "\<bar>x\<bar> < 2 powi (e + 1)"
  shows "fl64 x = of_int (rne (x / 2 powi (e - 52))) * 2 powi (e - 52)"
proof -
  have "(0::real) < 2 powi e" by simp
  with assms(1) have pos: "0 < \<bar>x\<bar>" by linarith
  have lo: "2 powr (of_int e) = (2::real) powi e"
    by (rule powr_real_of_int') simp_all
  have hi: "2 powr (of_int (e + 1)) = (2::real) powi (e + 1)"
    by (rule powr_real_of_int') simp_all
  have "2 powr (of_int e) \<le> \<bar>x\<bar> \<and> \<bar>x\<bar> < 2 powr (of_int (e + 1))"
    using assms by (simp only: lo hi)
  then have "\<lfloor>log 2 \<bar>x\<bar>\<rfloor> = e"
    using pos floor_log_eq_powr_iff [of "\<bar>x\<bar>" 2 e] by simp
  with pos show ?thesis by (auto simp: fl64_def Let_def)
qed

lemma rne_of_int: "rne (of_int n) = n"
  by (simp add: rne_def)

lemma rne_bounds: "\<lfloor>x\<rfloor> \<le> rne x \<and> rne x \<le> \<lfloor>x\<rfloor> + 1"
  by (simp add: rne_def Let_def)

lemma rne_range:
  assumes "of_int a \<le> x" "x < of_int b"
  shows "a \<le> rne x \<and> rne x \<le> b"
proof -
  have "a \<le> \<lfloor>x\<rfloor>" using assms(1) by (simp add: le_floor_iff)
  moreover have "\<lfloor>x\<rfloor> < b" using assms(2) by (simp add: floor_less_iff)
  ultimately show ?thesis using rne_bounds [of x] by linarith
qed

lemma rne_range_neg:
  assumes "of_int a < x" "x \<le> of_int b"
  shows "a \<le> rne x \<and> rne x \<le> b"
proof (cases "x = of_int b")
  case True
  with assms show ?thesis by (simp add: rne_of_int)
next
  case False
  with assms(2) have "x < of_int b" by simp
  then have "\<lfloor>x\<rfloor> < b" by (simp add: floor_less_iff)
  moreover have "a \<le> \<lfloor>x\<rfloor>" using assms(1) by (simp add: le_floor_iff)
  ultimately show ?thesis using rne_bounds [of x] by linarith
qed

lemma fl64_exact:
  assumes "2 ^ 52 \<le> \<bar>n\<bar>" "\<bar>n\<bar> \<le> 2 ^ 53"
  shows "fl64 (of_int n * 2 powi k) = of_int n * 2 powi k"
proof (cases "\<bar>n\<bar> = 2 ^ 53")
  case False
  with assms have lt: "\<bar>n\<bar> < 2 ^ 53" by simp
  let ?x = "of_int n * (2::real) powi k"
  have ax: "\<bar>?x\<bar> = of_int \<bar>n\<bar> * 2 powi k" by (simp add: abs_mult)
  have "(2::real) powi (k + 52) = 2 ^ 52 * 2 powi k"
    by (simp add: power_int_add)
  moreover have "(2::real) ^ 52 \<le> of_int \<bar>n\<bar>"
    using assms(1) by (metis of_int_le_iff of_int_numeral of_int_power)
  ultimately have lo: "2 powi (k + 52) \<le> \<bar>?x\<bar>"
    unfolding ax by (simp add: mult_right_mono)
  have "(2::real) powi (k + 52 + 1) = 2 ^ 53 * 2 powi k"
    by (simp add: power_int_add)
  moreover have "of_int \<bar>n\<bar> < (2::real) ^ 53"
    using lt by (metis of_int_less_iff of_int_numeral of_int_power)
  ultimately have hi: "\<bar>?x\<bar> < 2 powi (k + 52 + 1)"
    unfolding ax by (simp add: mult_strict_right_mono)
  have "fl64 ?x = of_int (rne (?x / 2 powi (k + 52 - 52))) * 2 powi (k + 52 - 52)"
    using lo hi by (rule fl64_binade)
  then show ?thesis by (simp add: rne_of_int)
next
  case True
  let ?x = "of_int n * (2::real) powi k"
  have ax: "\<bar>?x\<bar> = 2 ^ 53 * 2 powi k"
    using True by (simp add: abs_mult)
  have e: "(2::real) powi (k + 53) = 2 ^ 53 * 2 powi k"
    by (simp add: power_int_add)
  have e1: "(2::real) powi (k + 53 + 1) = 2 ^ 54 * 2 powi k"
    by (simp add: power_int_add)
  have lo: "2 powi (k + 53) \<le> \<bar>?x\<bar>" unfolding ax e by simp
  have hi: "\<bar>?x\<bar> < 2 powi (k + 53 + 1)" unfolding ax e1 by simp
  have idx: "k + 53 - 52 = k + 1" by simp
  have u: "(2::real) powi (k + 1) = 2 * 2 powi k"
    by (simp add: power_int_add)
  obtain h where h: "n = 2 * h"
    using True by (cases "0 \<le> n") (auto intro: that [of "2 ^ 52"] that [of "- (2 ^ 52)"])
  have "fl64 ?x = of_int (rne (?x / 2 powi (k + 53 - 52))) * 2 powi (k + 53 - 52)"
    using lo hi by (rule fl64_binade)
  then have "fl64 ?x = of_int (rne (?x / 2 powi (k + 1))) * 2 powi (k + 1)"
    by (simp only: idx)
  moreover have "?x / 2 powi (k + 1) = of_int h"
    unfolding u h by simp
  ultimately have "fl64 ?x = of_int h * (2 * 2 powi k)"
    by (simp only: rne_of_int u)
  then show ?thesis by (simp add: h)
qed

lemma fl64_idem: "fl64 (fl64 x) = fl64 x"
proof (cases "x = 0")
  case True
  then show ?thesis by (simp add: fl64_def)
next
  case False
  define e where "e = \<lfloor>log 2 \<bar>x\<bar>\<rfloor>"
  define u where "u = (2::real) powi (e - 52)"
  define n where "n = rne (x / u)"
  have upos: "0 < u" by (simp add: u_def)
  have fx: "fl64 x = of_int n * 2 powi (e - 52)"
    using False by (simp add: fl64_def Let_def e_def u_def n_def)
  have pos: "0 < \<bar>x\<bar>" using False by simp
  have "2 powr (of_int e) \<le> \<bar>x\<bar> \<and> \<bar>x\<bar> < 2 powr (of_int (e + 1))"
    using floor_log_eq_powr_iff [of "\<bar>x\<bar>" 2 e] pos by (simp add: e_def)
  moreover have "2 powr (of_int e) = (2::real) powi e"
    by (rule powr_real_of_int') simp_all
  moreover have "2 powr (of_int (e + 1)) = (2::real) powi (e + 1)"
    by (rule powr_real_of_int') simp_all
  ultimately have b: "2 powi e \<le> \<bar>x\<bar>" "\<bar>x\<bar> < 2 powi (e + 1)" by simp_all
  have e52: "(2::real) powi e = 2 ^ 52 * u"
    by (simp add: u_def power_int_diff)
  have e53: "(2::real) powi (e + 1) = 2 ^ 53 * u"
    by (simp add: u_def power_int_diff power_int_add)
  have q: "2 ^ 52 \<le> \<bar>x / u\<bar>" "\<bar>x / u\<bar> < 2 ^ 53"
    using b upos unfolding e52 e53 by (simp_all add: field_simps abs_mult)
  have "2 ^ 52 \<le> \<bar>n\<bar> \<and> \<bar>n\<bar> \<le> 2 ^ 53"
  proof (cases "0 \<le> x / u")
    case True
    with q have "of_int (2 ^ 52) \<le> x / u" "x / u < of_int (2 ^ 53)" by simp_all
    then have "2 ^ 52 \<le> n \<and> n \<le> 2 ^ 53" unfolding n_def by (rule rne_range)
    then show ?thesis by simp
  next
    case False
    with q have "of_int (- (2 ^ 53)) < x / u" "x / u \<le> of_int (- (2 ^ 52))" by simp_all
    then have "- (2 ^ 53) \<le> n \<and> n \<le> - (2 ^ 52)" unfolding n_def by (rule rne_range_neg)
    then show ?thesis by simp
  qed
  then show ?thesis unfolding fx by (intro fl64_exact) simp_all
qed

text \<open>
  The rounding of a number whose 53-bit significand is found by scaling with a power
  of two: the form in which concrete numbers are rounded below.
\<close>

lemma fl64_scaled:
  assumes "2 ^ 52 \<le> \<bar>x\<bar> * 2 ^ m" "\<bar>x\<bar> * 2 ^ m < 2 ^ 53"
  shows "fl64 x = of_int (rne (x * 2 ^ m)) / 2 ^ m"
proof -
  have p: "(2::real) powi (- int m) = 1 / 2 ^ m"
    by (simp add: power_int_minus field_simps)
  have a: "(2::real) powi (52 - int m) = 2 ^ 52 / 2 ^ m"
    by (simp add: power_int_diff)
  have b: "(2::real) powi (53 - int m) = 2 ^ 53 / 2 ^ m"
    by (simp add: power_int_diff)
  have "2 powi (52 - int m) \<le> \<bar>x\<bar>"
    unfolding a using assms(1) by (simp add: field_simps)
  moreover have "\<bar>x\<bar> < 2 powi (52 - int m + 1)"
  proof -
    have "52 - int m + 1 = 53 - int m" by simp
    then show ?thesis unfolding b using assms(2) by (simp only: b) (simp add: field_simps)
  qed
  ultimately have "fl64 x = of_int (rne (x / 2 powi (52 - int m - 52))) * 2 powi (52 - int m - 52)"
    by (rule fl64_binade)
  then show ?thesis by (simp add: p)
qed

lemma fl64_small:
  "fl64 1 = 1" "fl64 2 = 2" "fl64 10 = 10" "fl64 20 = 20" "fl64 40 = 40" "fl64 30 = 30"
  "fl64 255 = 255" "fl64 (255 / 2) = 255 / 2"
  using fl64_scaled [of 1 52] fl64_scaled [of 2 51] fl64_scaled [of 10 49] fl64_scaled [of 20 48]
    fl64_scaled [of 40 47] fl64_scaled [of 30 48] fl64_scaled [of 255 45] fl64_scaled [of "255 / 2" 46]
  by (simp_all add: rne_def Let_def)

text \<open>
  The numbers written \<open>0.2\<close> and \<open>0.9\<close>, their rounded difference, and the rounded sum
  of the first and that difference.
\<close>

lemma fl64_02: "fl64 (1 / 5) = 3602879701896397 / 2 ^ 54"
  using fl64_scaled [of "1 / 5" 55] by (simp add: rne_def Let_def)

lemma fl64_09: "fl64 (9 / 10) = 8106479329266893 / 2 ^ 53"
  using fl64_scaled [of "9 / 10" 53] by (simp add: rne_def Let_def)

lemma fl64_07: "fl64 (8106479329266893 / 2 ^ 53 - 3602879701896397 / 2 ^ 54) = 6305039478318694 / 2 ^ 53"
  using fl64_scaled [of "8106479329266893 / 2 ^ 53 - 3602879701896397 / 2 ^ 54" 53] by (simp add: rne_def Let_def)

lemma fl64_089: "fl64 (3602879701896397 / 2 ^ 54 + 6305039478318694 / 2 ^ 53) = 8106479329266892 / 2 ^ 53"
  using fl64_scaled [of "3602879701896397 / 2 ^ 54 + 6305039478318694 / 2 ^ 53" 53] by (simp add: rne_def Let_def)

section \<open>Properties of the keyframe interpolator\<close>

lemma lerp_same: "fl64 v = v \<Longrightarrow> lerp v v t = v"
  by (simp add: lerp_def fl64_zero)

lemma lerp_one: "lerp a b 1 = fl64 (a + fl64 (b - a))"
  by (simp add: lerp_def fl64_idem)

lemma segmentLoop_past:
  "\<forall>k \<in> set kfs. kf_time k < local \<Longrightarrow> segmentLoop local kfs = None"
  by (induction local kfs rule: segmentLoop.induct) auto

text \<open>
  The loop returns at the first keyframe of index at least 1 whose time is not below
  the local time.
\<close>

lemma segmentLoop_first:
  assumes "0 < i" "i < length kfs" "local \<le> kf_time (kfs ! i)"
    and "\<forall>j. 0 < j \<and> j < i \<longrightarrow> kf_time (kfs ! j) < local"
  shows "segmentLoop local kfs =
     Some (kfs ! (i - 1), kfs ! i,
       if kf_time (kfs ! i) - kf_time (kfs ! (i - 1)) \<le> 0 then 1
       else (local - kf_time (kfs ! (i - 1))) / (kf_time (kfs ! i) - kf_time (kfs ! (i - 1))))"
  using assms
proof (induction local kfs arbitrary: i rule: segmentLoop.induct)
  case (1 local a b rest)
  show ?case
  proof (cases "i = 1")
    case True
    with "1.prems" show ?thesis by (simp add: Let_def)
  next
    case False
    with "1.prems" have i2: "1 < i" by simp
    then obtain i' where i': "i = Suc i'" "0 < i'" by (cases i) auto
    from i2 have "0 < (1::nat) \<and> 1 < i" by simp
    with "1.prems"(4) have "kf_time ((a # b # rest) ! 1) < local" by blast
    then have nb: "\<not> local \<le> kf_time b" by simp
    have "segmentLoop local (b # rest) =
       Some ((b # rest) ! (i' - 1), (b # rest) ! i',
         if kf_time ((b # rest) ! i') - kf_time ((b # rest) ! (i' - 1)) \<le> 0 then 1
         else (local - kf_time ((b # rest) ! (i' - 1)))
              / (kf_time ((b # rest) ! i') - kf_time ((b # rest) ! (i' - 1))))"
    proof (rule "1.IH" [OF nb])
      show "0 < i'" by (rule i'(2))
      show "i' < length (b # rest)" using "1.prems"(2) i' by simp
      show "local \<le> kf_time ((b # rest) ! i')" using "1.prems"(3) i' by simp
      show "\<forall>j. 0 < j \<and> j < i' \<longrightarrow> kf_time ((b # rest) ! j) < local"
      proof (intro allI impI)
        fix j assume "0 < j \<and> j < i'"
        then have "0 < Suc j \<and> Suc j < i" using i' by simp
        with "1.prems"(4) have "kf_time ((a # b # rest) ! Suc j) < local" by blast
        then show "kf_time ((b # rest) ! j) < local" by simp
      qed
    qed
    moreover have "(b # rest) ! (i' - 1) = (a # b # rest) ! (i - 1)"
      using i' by (cases i') simp_all
    moreover have "(b # rest) ! i' = (a # b # rest) ! i" using i' by simp
    ultimately show ?thesis using nb by simp
  qed
next
  case (2 local a)
  then show ?case by simp
next
  case (3 local)
  then show ?case by simp
qed

lemma keyframeNumber_before_first:
  assumes "kfs \<noteq> []" "fl64 (kf_value (hd kfs)) = kf_value (hd kfs)"
    and "localTimeForKeyframes time spec start index stagger \<le> kf_time (hd kfs)"
  shows "keyframeNumber time kfs spec start index stagger = Inr (kf_value (hd kfs))"
  using assms
  by (cases kfs) (auto simp: keyframeNumber_def segmentForKeyframes_def lerp_same Let_def split: list.splits)

lemma keyframeNumber_after_last:
  assumes "kfs \<noteq> []" "sorted (map kf_time kfs)" "fl64 (kf_value (last kfs)) = kf_value (last kfs)"
    and "kf_time (last kfs) < localTimeForKeyframes time spec start index stagger"
  shows "keyframeNumber time kfs spec start index stagger = Inr (kf_value (last kfs))"
proof -
  define local where "local = localTimeForKeyframes time spec start index stagger"
  have all: "\<forall>k \<in> set kfs. kf_time k < local"
  proof
    fix k assume "k \<in> set kfs"
    then obtain i where i: "i < length kfs" "kfs ! i = k" by (auto simp: in_set_conv_nth)
    have "kf_time (kfs ! i) \<le> kf_time (kfs ! (length kfs - 1))"
      using assms(2) i(1) sorted_nth_mono [of "map kf_time kfs" i "length kfs - 1"] by simp
    with i assms(1,4) show "kf_time k < local"
      by (simp add: last_conv_nth local_def)
  qed
  then have none: "segmentLoop local kfs = None" by (rule segmentLoop_past)
  from assms(1) obtain k0 rest where kfs: "kfs = k0 # rest" by (cases kfs) auto
  with all have "kf_time k0 < local" by simp
  with none kfs assms(3) show ?thesis
    unfolding keyframeNumber_def local_def [symmetric]
    by (cases rest) (simp_all add: segmentForKeyframes_def lerp_same Let_def del: segmentLoop.simps)
qed

lemma keyframeNumber_at_later:
  assumes st: "sorted (map kf_time kfs)"
    and i: "0 < i" "i < length kfs"
    and prev: "kf_time (kfs ! (i - 1)) < local"
    and at: "local = kf_time (kfs ! i)"
    and local: "local = localTimeForKeyframes time spec start index stagger"
  shows "keyframeNumber time kfs spec start index stagger =
     Inr (fl64 (kf_value (kfs ! (i - 1)) + fl64 (kf_value (kfs ! i) - kf_value (kfs ! (i - 1)))))"
proof -
  have below: "kf_time (kfs ! j) < local" if "j < i" for j
  proof -
    have "kf_time (kfs ! j) \<le> kf_time (kfs ! (i - 1))"
      using st that i sorted_nth_mono [of "map kf_time kfs" j "i - 1"] by simp
    with prev show ?thesis by simp
  qed
  have seg: "segmentLoop local kfs = Some (kfs ! (i - 1), kfs ! i, 1)"
    using segmentLoop_first [of i kfs local] i at prev below by auto
  from i obtain k0 k1 rest where kfs: "kfs = k0 # k1 # rest"
    by (cases kfs; cases "tl kfs") auto
  have "kf_time k0 < local" using below [of 0] i kfs by simp
  with seg kfs show ?thesis
    unfolding keyframeNumber_def local [symmetric]
    by (simp add: segmentForKeyframes_def lerp_one applyEase_one Let_def del: segmentLoop.simps)
qed

text \<open>
  Claim C6, as the code has it.  For a non-empty keyframe list sorted by time, whose
  values are machine numbers, and every easing: for a local time at or before the
  first keyframe's time the result is exactly the first value; for a local time
  after the last keyframe's time it is exactly the last value; when the local time
  equals the time of a later keyframe \<open>k\<close>, the first with that time, and \<open>p\<close> is the
  keyframe before it, the result is \<open>p + (k - p)\<close> as the machine computes it (the
  difference rounded, then the sum rounded): the stored value of \<open>k\<close> up to that
  rounding, and never the value of a further keyframe that shares the time.
\<close>

theorem keyframeNumber_at_and_outside:
  assumes ne: "kfs \<noteq> []"
    and st: "sorted (map kf_time kfs)"
    and rep: "\<forall>k \<in> set kfs. fl64 (kf_value k) = kf_value k"
    and local: "local = localTimeForKeyframes time spec start index stagger"
  shows "(local \<le> kf_time (hd kfs) \<longrightarrow>
            keyframeNumber time kfs spec start index stagger = Inr (kf_value (hd kfs)))
       \<and> (kf_time (last kfs) < local \<longrightarrow>
            keyframeNumber time kfs spec start index stagger = Inr (kf_value (last kfs)))
       \<and> (\<forall>i. 0 < i \<and> i < length kfs \<and> kf_time (kfs ! (i - 1)) < local
              \<and> local = kf_time (kfs ! i) \<longrightarrow>
            keyframeNumber time kfs spec start index stagger =
              Inr (fl64 (kf_value (kfs ! (i - 1))
                         + fl64 (kf_value (kfs ! i) - kf_value (kfs ! (i - 1))))))"
proof (intro conjI allI impI)
  assume "local \<le> kf_time (hd kfs)"
  with ne rep local show "keyframeNumber time kfs spec start index stagger = Inr (kf_value (hd kfs))"
    using keyframeNumber_before_first [of kfs time spec start index stagger] by simp
next
  assume "kf_time (last kfs) < local"
  with ne st rep local show "keyframeNumber time kfs spec start index stagger = Inr (kf_value (last kfs))"
    using keyframeNumber_after_last [of kfs time spec start index stagger] by simp
next
  fix i
  assume "0 < i \<and> i < length kfs \<and> kf_time (kfs ! (i - 1)) < local \<and> local = kf_time (kfs ! i)"
  with st local show "keyframeNumber time kfs spec start index stagger =
      Inr (fl64 (kf_value (kfs ! (i - 1)) + fl64 (kf_value (kfs ! i) - kf_value (kfs ! (i - 1)))))"
    using keyframeNumber_at_later [of kfs i local time spec start index stagger] by simp
qed

theorem keyframeNumber_at_and_outside_witness:
  "keyframeNumber 20 [Keyframe 50 10, Keyframe 100 20, Keyframe 200 40]
      \<lparr>spec_loop = False, spec_delay = None, spec_repeatDelay = None, spec_ease = Some EaseIn,
       spec_duration = Some 300,
       spec_keyframes = Some [Keyframe 50 10, Keyframe 100 20, Keyframe 200 (40::real)]\<rparr> 0 0 0 = Inr 10
   \<and> keyframeNumber 250 [Keyframe 50 10, Keyframe 100 20, Keyframe 200 40]
      \<lparr>spec_loop = False, spec_delay = None, spec_repeatDelay = None, spec_ease = Some EaseIn,
       spec_duration = Some 300,
       spec_keyframes = Some [Keyframe 50 10, Keyframe 100 20, Keyframe 200 (40::real)]\<rparr> 0 0 0 = Inr 40
   \<and> keyframeNumber 100 [Keyframe 50 10, Keyframe 100 20, Keyframe 200 40]
      \<lparr>spec_loop = False, spec_delay = None, spec_repeatDelay = None, spec_ease = Some EaseIn,
       spec_duration = Some 300,
       spec_keyframes = Some [Keyframe 50 10, Keyframe 100 20, Keyframe 200 (40::real)]\<rparr> 0 0 0 = Inr 20"
proof -
  let ?kfs = "[Keyframe 50 10, Keyframe 100 20, Keyframe 200 (40::real)]"
  let ?spec = "\<lparr>spec_loop = False, spec_delay = None, spec_repeatDelay = None,
       spec_ease = Some EaseIn, spec_duration = Some 300, spec_keyframes = Some ?kfs\<rparr>"
  have ne: "?kfs \<noteq> []" by simp
  have st: "sorted (map kf_time ?kfs)" by simp
  have rep: "\<forall>k \<in> set ?kfs. fl64 (kf_value k) = kf_value k" by (simp add: fl64_small)
  have l1: "20 = localTimeForKeyframes 20 ?spec 0 0 0"
    by (simp add: localTimeForKeyframes_def durationOf_def nullish_def Let_def)
  have l2: "250 = localTimeForKeyframes 250 ?spec 0 0 0"
    by (simp add: localTimeForKeyframes_def durationOf_def nullish_def Let_def)
  have l3: "100 = localTimeForKeyframes 100 ?spec 0 0 0"
    by (simp add: localTimeForKeyframes_def durationOf_def nullish_def Let_def)
  have "keyframeNumber 20 ?kfs ?spec 0 0 0 = Inr 10"
    using keyframeNumber_at_and_outside [OF ne st rep l1] by simp
  moreover have "keyframeNumber 250 ?kfs ?spec 0 0 0 = Inr 40"
    using keyframeNumber_at_and_outside [OF ne st rep l2] by simp
  moreover have "keyframeNumber 100 ?kfs ?spec 0 0 0 = Inr (fl64 (10 + fl64 (20 - 10)))"
  proof -
    have "0 < (1::nat) \<and> 1 < length ?kfs \<and> kf_time (?kfs ! (1 - 1)) < 100 \<and> 100 = kf_time (?kfs ! 1)"
      by simp
    with keyframeNumber_at_and_outside [OF ne st rep l3] show ?thesis by fastforce
  qed
  ultimately show ?thesis by (simp add: fl64_small)
qed

text \<open>
  Claim C6 as stated fails in two ways.  On a sorted list in which two keyframes share
  a time, at local time 5, the time of the last keyframe, the result is the value 2 of
  the first keyframe with that time and not the last keyframe's value 3.  And on the
  keyframes \<open>(0, 0.2), (100, 0.9)\<close>, whose times are distinct, the result at local
  time 100 is \<open>0.2 + (0.9 - 0.2)\<close> rounded, one unit in the last place below the
  stored \<open>0.9\<close>.
\<close>

theorem keyframeNumber_counterexample:
  "sorted (map kf_time [Keyframe 0 1, Keyframe 5 2, Keyframe 5 (3::real)])
   \<and> localTimeForKeyframes 5
        \<lparr>spec_loop = False, spec_delay = None, spec_repeatDelay = None, spec_ease = None,
         spec_duration = None,
         spec_keyframes = Some [Keyframe 0 1, Keyframe 5 2, Keyframe 5 (3::real)]\<rparr> 0 0 0
       = kf_time (last [Keyframe 0 1, Keyframe 5 2, Keyframe 5 (3::real)])
   \<and> keyframeNumber 5 [Keyframe 0 1, Keyframe 5 2, Keyframe 5 3]
        \<lparr>spec_loop = False, spec_delay = None, spec_repeatDelay = None, spec_ease = None,
         spec_duration = None,
         spec_keyframes = Some [Keyframe 0 1, Keyframe 5 2, Keyframe 5 (3::real)]\<rparr> 0 0 0
       = Inr 2
   \<and> kf_value (last [Keyframe 0 1, Keyframe 5 2, Keyframe 5 (3::real)]) = 3
   \<and> localTimeForKeyframes 100
        \<lparr>spec_loop = False, spec_delay = None, spec_repeatDelay = None, spec_ease = None,
         spec_duration = None,
         spec_keyframes = Some [Keyframe 0 (fl64 (1 / 5)), Keyframe 100 (fl64 (9 / 10))]\<rparr> 0 0 0
       = 100
   \<and> keyframeNumber 100 [Keyframe 0 (fl64 (1 / 5)), Keyframe 100 (fl64 (9 / 10))]
        \<lparr>spec_loop = False, spec_delay = None, spec_repeatDelay = None, spec_ease = None,
         spec_duration = None,
         spec_keyframes = Some [Keyframe 0 (fl64 (1 / 5)), Keyframe 100 (fl64 (9 / 10))]\<rparr> 0 0 0
       = Inr (8106479329266892 / 2 ^ 53)
   \<and> fl64 (9 / 10) = 8106479329266893 / 2 ^ 53"
proof -
  have dup:
    "keyframeNumber 5 [Keyframe 0 1, Keyframe 5 2, Keyframe 5 3]
        \<lparr>spec_loop = False, spec_delay = None, spec_repeatDelay = None, spec_ease = None,
         spec_duration = None,
         spec_keyframes = Some [Keyframe 0 1, Keyframe 5 2, Keyframe 5 (3::real)]\<rparr> 0 0 0
       = Inr 2"
    by (simp add: keyframeNumber_def segmentForKeyframes_def localTimeForKeyframes_def
        durationOf_def nullish_def Let_def lerp_one fl64_small)
  have "lerp (fl64 (1 / 5)) (fl64 (9 / 10)) 1 = 8106479329266892 / 2 ^ 53"
    unfolding lerp_one by (simp only: fl64_02 fl64_09 fl64_07 fl64_089)
  then have rounded:
    "keyframeNumber 100 [Keyframe 0 (fl64 (1 / 5)), Keyframe 100 (fl64 (9 / 10))]
        \<lparr>spec_loop = False, spec_delay = None, spec_repeatDelay = None, spec_ease = None,
         spec_duration = None,
         spec_keyframes = Some [Keyframe 0 (fl64 (1 / 5)), Keyframe 100 (fl64 (9 / 10))]\<rparr> 0 0 0
       = Inr (8106479329266892 / 2 ^ 53)"
    by (simp add: keyframeNumber_def segmentForKeyframes_def localTimeForKeyframes_def
        durationOf_def nullish_def Let_def)
  show ?thesis
    unfolding dup rounded
    by (simp add: localTimeForKeyframes_def durationOf_def nullish_def Let_def fl64_09)
qed

section \<open>Properties of the time reference resolver\<close>

lemma startsWith_iff: "startsWith s p \<longleftrightarrow> (\<exists>suf. s = p @ suf)"
proof
  assume "startsWith s p"
  then have "s = p @ drop (length p) s"
    by (metis append_take_drop_id startsWith_def)
  then show "\<exists>suf. s = p @ suf" ..
next
  assume "\<exists>suf. s = p @ suf"
  then show "startsWith s p" by (auto simp: startsWith_def)
qed

lemma not_digit_dot: "\<not> is_digit CHR ''.''"
  by (simp add: is_digit_def)

lemma match_offset_complete:
  assumes "signed_numeral s sg ds fs"
  shows "match_offset s = Some (sg, ds, fs)"
proof -
  from assms have sg: "sg = CHR ''+'' \<or> sg = CHR ''-''" and ds: "ds \<noteq> []"
    and dd: "\<And>c. c \<in> set ds \<Longrightarrow> is_digit c" and df: "list_all is_digit fs"
    and s: "s = sg # ds @ (if fs = [] then [] else CHR ''.'' # fs)"
    by (auto simp: signed_numeral_def list_all_iff)
  let ?tail = "if fs = [] then [] else CHR ''.'' # fs"
  have tw: "takeWhile is_digit (ds @ ?tail) = ds"
    using dd by (simp add: takeWhile_append2 not_digit_dot)
  have dw: "dropWhile is_digit (ds @ ?tail) = ?tail"
    using dd by (simp add: dropWhile_append2 not_digit_dot)
  show ?thesis
    unfolding match_offset_def s using sg ds df
    by (simp only: list.case tw dw Let_def) auto
qed

lemma match_offset_sound:
  assumes "match_offset s = Some (sg, ds, fs)"
  shows "signed_numeral s sg ds fs"
proof (cases s)
  case Nil
  with assms show ?thesis by (simp add: match_offset_def)
next
  case (Cons c rest)
  let ?tw = "takeWhile is_digit rest"
  let ?dw = "dropWhile is_digit rest"
  have split: "rest = ?tw @ ?dw" by simp
  have all: "list_all is_digit ?tw"
    by (auto simp: list_all_iff dest: set_takeWhileD)
  from assms Cons have c: "c = CHR ''+'' \<or> c = CHR ''-''"
    by (auto simp: match_offset_def split: if_splits)
  from assms Cons c have m:
    "(if ?tw = [] then None
      else (case ?dw of [] \<Rightarrow> Some (c, ?tw, [])
            | d # fs \<Rightarrow> if d = CHR ''.'' \<and> fs \<noteq> [] \<and> list_all is_digit fs
                        then Some (c, ?tw, fs) else None)) = Some (sg, ds, fs)"
    by (auto simp: match_offset_def Let_def)
  then have ne: "?tw \<noteq> []" by (auto split: if_splits)
  show ?thesis
  proof (cases ?dw)
    case Nil
    with m ne have "sg = c \<and> ds = ?tw \<and> fs = []" by simp
    moreover from Nil have "rest = ?tw"
      by (metis append_Nil2 takeWhile_dropWhile_id)
    ultimately show ?thesis
      using Cons c all ne by (simp add: signed_numeral_def)
  next
    case (Cons d fs')
    with m ne have "sg = c \<and> ds = ?tw \<and> fs = fs' \<and> d = CHR ''.'' \<and> fs' \<noteq> [] \<and> list_all is_digit fs'"
      by (auto split: if_splits)
    moreover from Cons have "rest = ?tw @ d # fs'"
      by (metis takeWhile_dropWhile_id)
    ultimately show ?thesis
      using \<open>s = c # rest\<close> c all ne by (simp add: signed_numeral_def)
  qed
qed

lemma parseOffset_numeral:
  "signed_numeral suf sg ds fs \<Longrightarrow> parseOffset base suf = base + Number_of (sg, ds, fs)"
  by (frule match_offset_complete) (auto simp: parseOffset_def signed_numeral_def)

lemma parseOffset_other:
  assumes "\<not> (\<exists>sg ds fs. signed_numeral suf sg ds fs)"
  shows "parseOffset base suf = base"
proof (cases "match_offset suf")
  case None
  then show ?thesis by (simp add: parseOffset_def)
next
  case (Some m)
  obtain sg ds fs where "m = (sg, ds, fs)" by (cases m) auto
  with Some assms match_offset_sound [of suf sg ds fs] show ?thesis by auto
qed

lemma resolveStart_prefix:
  assumes "strip_ws ref = pre @ suf"
    and "pre = ''scene'' \<and> base = 0 \<or> pre = ''prev.end'' \<and> base = prevEnd"
  shows "resolveStart (Some (Str ref)) prevEnd = parseOffset base suf"
  using assms by (auto simp: resolveStart_def startsWith_def slice_def Let_def)

text \<open>
  Claim C8.  For a string reference that, once its white space is removed, is
  \<open>scene\<close> or \<open>prev.end\<close> followed by a suffix: a suffix of the signed-numeral
  grammar is added, with its decimal value, to the base (0 for \<open>scene\<close>, the supplied
  \<open>prevEnd\<close> for \<open>prev.end\<close>); any other suffix leaves the base as it is.  The
  function is total: no case raises an error.
\<close>

theorem resolveStart_suffix:
  assumes "strip_ws ref = pre @ suf"
    and "pre = ''scene'' \<and> base = 0 \<or> pre = ''prev.end'' \<and> base = prevEnd"
  shows "(\<forall>sg ds fs. signed_numeral suf sg ds fs \<longrightarrow>
            resolveStart (Some (Str ref)) prevEnd = base + Number_of (sg, ds, fs))
       \<and> (\<not> (\<exists>sg ds fs. signed_numeral suf sg ds fs) \<longrightarrow>
            resolveStart (Some (Str ref)) prevEnd = base)"
  using resolveStart_prefix [OF assms] parseOffset_numeral [of suf _ _ _ base]
    parseOffset_other [of suf base]
  by auto

theorem resolveStart_suffix_witness:
  "resolveStart (Some (Str ''scene + 200'')) 1000 = 200
   \<and> resolveStart (Some (Str ''prev.end-150.5'')) 1000 = 1699 / 2
   \<and> resolveStart (Some (Str ''prev.end+1x'')) 1000 = 1000"
proof -
  have a: "signed_numeral ''+200'' (CHR ''+'') ''200'' ''''"
    by (simp add: signed_numeral_def is_digit_def)
  have b: "signed_numeral ''-150.5'' (CHR ''-'') ''150'' ''5''"
    by (simp add: signed_numeral_def is_digit_def)
  have c: "\<not> (\<exists>sg ds fs. signed_numeral ''+1x'' sg ds fs)"
    by (auto simp: signed_numeral_def is_digit_def Cons_eq_append_conv split: if_splits)
  have s1: "strip_ws ''scene + 200'' = ''scene'' @ ''+200''"
    by (simp add: strip_ws_def is_space_def)
  have s2: "strip_ws ''prev.end-150.5'' = ''prev.end'' @ ''-150.5''"
    by (simp add: strip_ws_def is_space_def)
  have s3: "strip_ws ''prev.end+1x'' = ''prev.end'' @ ''+1x''"
    by (simp add: strip_ws_def is_space_def)
  have "resolveStart (Some (Str ''scene + 200'')) 1000 = 0 + Number_of (CHR ''+'', ''200'', '''')"
    using resolveStart_suffix [OF s1, of 0 1000] a by blast
  moreover have "resolveStart (Some (Str ''prev.end-150.5'')) 1000 = 1000 + Number_of (CHR ''-'', ''150'', ''5'')"
    using resolveStart_suffix [OF s2, of 1000 1000] b by blast
  moreover have "resolveStart (Some (Str ''prev.end+1x'')) 1000 = 1000"
    using resolveStart_suffix [OF s3, of 1000 1000] c by blast
  ultimately show ?thesis
    by (simp add: Number_of_def dec_value_def digit_val_def)
qed

text \<open>
  Claim C10.  A string reference that, once its white space is removed, starts with
  neither \<open>scene\<close> nor \<open>prev.end\<close> resolves to 0, whatever \<open>prevEnd\<close> is.
\<close>

theorem resolveStart_unrecognised:
  assumes "\<not> (\<exists>suf. strip_ws ref = ''scene'' @ suf)"
    and "\<not> (\<exists>suf. strip_ws ref = ''prev.end'' @ suf)"
  shows "resolveStart (Some (Str ref)) prevEnd = 0"
  using assms by (simp add: resolveStart_def Let_def startsWith_iff)

theorem resolveStart_unrecognised_witness:
  "resolveStart (Some (Str ''prev + 200'')) 1000 = 0"
proof -
  have s: "strip_ws ''prev + 200'' = ''prev+200''"
    by (simp add: strip_ws_def is_space_def)
  show ?thesis
    using resolveStart_unrecognised [of "''prev + 200''" 1000] by (simp add: s)
qed

section \<open>Properties of the colour model\<close>

lemmas color_eval = parseColor_def lerpColor_def toLowerCase_def trim_def lower_char_def named_def
  inherited_def hex_digit_def hex_value_def parseInt16_def bsl_def lit_def many1_def many0_def
  rgb_match_at_def lerpN_def Math_round_def show_num_def lerp_def is_space_def startsWith_def
  slice_def Let_def

text \<open>A text without a backslash has no match of the third form's expression.\<close>

lemma rgb_match_at_backslash:
  assumes "rgb_match_at s"
  shows "bsl \<in> set s"
proof -
  define p where "p = ''rgb'' @ [bsl, bsl]"
  have "lit p s \<noteq> None"
    using assms unfolding rgb_match_at_def p_def
    by (cases "lit (''rgb'' @ [bsl, bsl]) s") simp_all
  then have eq: "take (length p) s = p"
    by (simp add: lit_def split: if_splits)
  have "bsl \<in> set p" by (simp add: p_def)
  with eq have "bsl \<in> set (take (length p) s)" by simp
  then show ?thesis by (rule in_set_takeD)
qed

lemma rgb_search_backslash: "rgb_search s \<Longrightarrow> bsl \<in> set s"
  by (induction s) (auto dest: rgb_match_at_backslash)

text \<open>When either colour is \<open>null\<close> (and no parse throws) the result is the first text.\<close>

lemma lerpColor_null:
  assumes "parseColor a = Inr ca" "parseColor b = Inr cb" "ca = None \<or> cb = None"
  shows "lerpColor a b t = Inr a"
  using assms by (auto simp: lerpColor_def split: option.splits)

text \<open>
  Claim C2, at its failing inputs.  A text of the form \<open>rgb(r,g,b)\<close> is not parsed:
  \<open>parseColor\<close> returns \<open>null\<close> for it, also for the text that \<open>lerpColor\<close> itself
  produces, and \<open>lerpColor\<close> over two such texts returns the first of them instead of
  interpolating the channels.
\<close>

theorem parseColor_rgb_text:
  "parseColor ''rgb(10,20,30)'' = Inr None
   \<and> parseColor ''rgb(128, 128, 128)'' = Inr None
   \<and> lerpColor ''rgb(0,0,0)'' ''rgb(255,255,255)'' (1 / 2) = Inr ''rgb(0,0,0)''
   \<and> lerpColor ''#000000'' ''#ffffff'' (1 / 2) = Inr ''rgb(128, 128, 128)''"
  by (simp add: color_eval fl64_small)

text \<open>
  Claim C9, at its failing inputs.  \<open>#ggg\<close> is none of the accepted forms, but
  \<open>parseColor\<close> does not return \<open>null\<close> for it (its channels are NaN), and
  \<open>lerpColor\<close> returns a text of NaN channels and not the first text.  For the text
  \<open>constructor\<close> the look-up in the palette finds an inherited property and
  \<open>parseColor\<close> throws.
\<close>

theorem lerpColor_unparseable:
  "parseColor ''#ggg'' = Inr (Some (Color None None None))
   \<and> lerpColor ''#ggg'' ''#000'' (1 / 2) = Inr ''rgb(NaN, NaN, NaN)''
   \<and> lerpColor ''constructor'' ''red'' (1 / 2) = Inl TypeError"
  by (simp add: color_eval)

section \<open>Properties of the flow composer\<close>

text \<open>Every entry's offset is the sum of the estimated durations of the items before it.\<close>

lemma sequence_entries_offsets:
  "i < length items \<Longrightarrow>
     sequence_entries est cursor items ! i
       = (cursor + sum_list (map (durationOfItem est) (take i items)), items ! i)"
proof (induction items arbitrary: cursor i)
  case Nil
  then show ?case by simp
next
  case (Cons item items)
  then show ?case by (cases i) (simp_all add: add.assoc)
qed

text \<open>The loop over an array keeps the greatest estimated duration, and at least 0.\<close>

lemma foldl_max_Max:
  "foldl (\<lambda>acc b. max acc (est b)) c xs = Max (insert c (est ` set xs))"
proof (induction xs arbitrary: c)
  case Nil
  then show ?case by simp
next
  case (Cons x xs)
  have "Max (insert (max c (est x)) (est ` set xs)) = Max (insert c (insert (est x) (est ` set xs)))"
    by (cases "set xs = {}") (simp_all add: max.assoc)
  with Cons show ?case by simp
qed

text \<open>
  Claim C4.  In \<open>sequence(a, b)\<close>, where each item is a builder, an array of builders,
  or a function returning one of them, the offset of \<open>a\<close> is 0 and the offset of \<open>b\<close>
  is the estimated duration \<open>da\<close> of \<open>a\<close>: \<open>estimateDuration\<close> of the builder, or the
  greatest \<open>estimateDuration\<close> over the array (at least 0).  At a time before \<open>da\<close> the
  result holds what the builders of \<open>a\<close> give at that time (nothing before time 0)
  and nothing of \<open>b\<close>; from \<open>da\<close> on it is that followed by what the builders of \<open>b\<close>
  give at the time less \<open>da\<close>.
\<close>

theorem sequence_two:
  assumes a: "(a = Single x \<or> a = Thunk (Single x)) \<and> da = est x \<and> ia = ev x
        \<or> (a = Many xs \<or> a = Thunk (Many xs)) \<and> da = Max (insert 0 (est ` set xs))
            \<and> ia = (\<lambda>t. concat (map (\<lambda>z. ev z t) xs))"
    and b: "(b = Single y \<or> b = Thunk (Single y)) \<and> ib = ev y
        \<or> (b = Many ys \<or> b = Thunk (Many ys)) \<and> ib = (\<lambda>t. concat (map (\<lambda>z. ev z t) ys))"
  shows "map fst (sequence est [a, b]) = [0, da] \<and> map snd (sequence est [a, b]) = [a, b]
       \<and> (t < da \<longrightarrow>
            SequenceGroup_evaluate ev (sequence est [a, b]) t = (if t < 0 then [] else ia t))
       \<and> (da \<le> t \<longrightarrow>
            SequenceGroup_evaluate ev (sequence est [a, b]) t
              = (if t < 0 then [] else ia t) @ ib (t - da))"
proof -
  have d: "durationOfItem est a = da"
    using a by (auto simp: foldl_max_Max)
  have fa: "flattenItems ev [a] u off = ia u" for u off
    using a by auto
  have fb: "flattenItems ev [b] u off = ib u" for u off
    using b by auto
  show ?thesis
    by (simp add: sequence_def d fa fb del: flattenItems.simps)
qed

theorem sequence_two_witness:
  "map fst (sequence (\<lambda>n. of_nat n * 100) [Single (3::nat), Single 7]) = [0, 300]
   \<and> SequenceGroup_evaluate (\<lambda>b t. [(b, t)]) (sequence (\<lambda>n. of_nat n * 100) [Single (3::nat), Single 7]) 250
      = [(3, 250)]
   \<and> SequenceGroup_evaluate (\<lambda>b t. [(b, t)]) (sequence (\<lambda>n. of_nat n * 100) [Single (3::nat), Single 7]) 320
      = [(3, 320), (7, 20)]
   \<and> map fst (sequence (\<lambda>n. of_nat n * 100) [Thunk (Many [1, 3::nat]), Thunk (Many [4, 5])]) = [0, 300]
   \<and> SequenceGroup_evaluate (\<lambda>b t. [(b, t)])
        (sequence (\<lambda>n. of_nat n * 100) [Thunk (Many [1, 3::nat]), Thunk (Many [4, 5])]) 250
      = [(1, 250), (3, 250)]
   \<and> SequenceGroup_evaluate (\<lambda>b t. [(b, t)])
        (sequence (\<lambda>n. of_nat n * 100) [Thunk (Many [1, 3::nat]), Thunk (Many [4, 5])]) 320
      = [(1, 320), (3, 320), (4, 20), (5, 20)]"
proof -
  let ?est = "\<lambda>n::nat. of_nat n * (100::real)"
  let ?ev = "\<lambda>(b::nat) (t::real). [(b, t)]"
  have a1: "(Single (3::nat) = Single 3 \<or> Single (3::nat) = Thunk (Single 3)) \<and> (300::real) = ?est 3
       \<and> ?ev 3 = ?ev 3
     \<or> (Single (3::nat) = Many [] \<or> Single (3::nat) = Thunk (Many [])) \<and> (300::real) = Max (insert 0 (?est ` set []))
       \<and> ?ev 3 = (\<lambda>t. concat (map (\<lambda>z. ?ev z t) []))"
    by simp
  have b1: "(Single (7::nat) = Single 7 \<or> Single (7::nat) = Thunk (Single 7)) \<and> ?ev 7 = ?ev 7
     \<or> (Single (7::nat) = Many [] \<or> Single (7::nat) = Thunk (Many []))
       \<and> ?ev 7 = (\<lambda>t. concat (map (\<lambda>z. ?ev z t) []))"
    by simp
  have a2: "(Thunk (Many [1, 3::nat]) = Single 0 \<or> Thunk (Many [1, 3::nat]) = Thunk (Single 0))
       \<and> (300::real) = ?est 0 \<and> (\<lambda>t. [(1, t), (3, t)]) = ?ev 0
     \<or> (Thunk (Many [1, 3::nat]) = Many [1, 3] \<or> Thunk (Many [1, 3::nat]) = Thunk (Many [1, 3]))
       \<and> (300::real) = Max (insert 0 (?est ` set [1, 3]))
       \<and> (\<lambda>t. [(1, t), (3, t)]) = (\<lambda>t. concat (map (\<lambda>z. ?ev z t) [1, 3]))"
    by simp
  have b2: "(Thunk (Many [4, 5::nat]) = Single 0 \<or> Thunk (Many [4, 5::nat]) = Thunk (Single 0))
       \<and> (\<lambda>t. [(4, t), (5, t)]) = ?ev 0
     \<or> (Thunk (Many [4, 5::nat]) = Many [4, 5] \<or> Thunk (Many [4, 5::nat]) = Thunk (Many [4, 5]))
       \<and> (\<lambda>t. [(4, t), (5, t)]) = (\<lambda>t. concat (map (\<lambda>z. ?ev z t) [4, 5]))"
    by simp
  show ?thesis
    using sequence_two [OF a1 b1, of 250] sequence_two [OF a1 b1, of 320]
      sequence_two [OF a2 b2, of 250] sequence_two [OF a2 b2, of 320]
    by simp
qed

section \<open>Properties of the distortion mapper\<close>

lemma rect_bounds:
  assumes "0 < (w::real)"
  shows "min_list_of [- (w / 2), w / 2, w / 2, - (w / 2)] = - (w / 2)"
    and "max_list_of [- (w / 2), w / 2, w / 2, - (w / 2)] = w / 2"
  using assms by (simp_all add: min_list_of_def max_list_of_def min_def max_def)

lemma rect_bounds_y:
  assumes "0 < (h::real)"
  shows "min_list_of [- (h / 2), - (h / 2), h / 2, h / 2] = - (h / 2)"
    and "max_list_of [- (h / 2), - (h / 2), h / 2, h / 2] = h / 2"
  using assms by (simp_all add: min_list_of_def max_list_of_def min_def max_def)

lemma normalize_ends:
  assumes "0 < (w::real)"
  shows "normalized (- (w / 2)) (- (w / 2)) (w / 2) = 0"
    and "normalized (w / 2) (- (w / 2)) (w / 2) = 1"
  using assms by (simp_all add: normalized_def)

lemma rect_corner_pinning:
  assumes "0 < w" "0 < h"
  shows "evaluate (distort (Rect w h) corners) time =
     [\<lparr>si_kind = KPath,
       si_geom = PathGeom
         [Vec2 (- (w / 2) + vx (corner (c_tl corners))) (- (h / 2) + vy (corner (c_tl corners))),
          Vec2 (w / 2 + vx (corner (c_tr corners))) (- (h / 2) + vy (corner (c_tr corners))),
          Vec2 (w / 2 + vx (corner (c_br corners))) (h / 2 + vy (corner (c_br corners))),
          Vec2 (- (w / 2) + vx (corner (c_bl corners))) (h / 2 + vy (corner (c_bl corners)))] True\<rparr>]"
  using assms
  by (simp add: evaluate_def distort_def Rect_def applyDistort_def pointsOf_def distortPoints_def
      rect_bounds rect_bounds_y normalize_ends Let_def)

text \<open>
  Claim C3.  \<open>Rect(100, 50)\<close> distorted by \<open>tl = (-10, 0)\<close>, \<open>tr = (10, 0)\<close> and
  evaluated at time 0 is one instance of kind path with four points; the first is
  \<open>(-60, -25)\<close> and the second \<open>(60, -25)\<close>: each displaced corner has moved by its
  whole displacement.
\<close>

theorem distort_rect_corners:
  "evaluate (distort (Rect 100 50)
      \<lparr>c_tl = Some (Vec2 (- 10) 0), c_tr = Some (Vec2 10 0), c_br = None, c_bl = None\<rparr>) 0
   = [\<lparr>si_kind = KPath,
       si_geom = PathGeom [Vec2 (- 60) (- 25), Vec2 60 (- 25), Vec2 50 25, Vec2 (- 50) 25] True\<rparr>]"
  by (simp add: evaluate_def distort_def Rect_def applyDistort_def pointsOf_def distortPoints_def
      min_list_of_def max_list_of_def normalized_def corner_def Let_def)

end
